theory Spec2Isabelle
  imports Complex_Main "HOL-Library.AList" "HOL-Library.Product_Lexorder"
begin

section \<open>Errors and the network\<close>

text \<open>
  Python exceptions are values. \<open>Exception msg\<close> is the script's own
  \<^verbatim>\<open>raise Exception("Failed to fetch klines data!")\<close>; the other three are the
  exceptions pandas raises on a failed column assignment, lookup or type coercion.
\<close>

datatype error = Exception string | ValueError | KeyError | TypeError

definition bind_e :: "error + 'a \<Rightarrow> ('a \<Rightarrow> error + 'b) \<Rightarrow> error + 'b" where
  "bind_e m f = (case m of Inl e \<Rightarrow> Inl e | Inr x \<Rightarrow> f x)"

fun map_e :: "('a \<Rightarrow> error + 'b) \<Rightarrow> 'a list \<Rightarrow> error + 'b list" where
  "map_e f [] = Inr []"
| "map_e f (x # xs) =
     (case f x of
        Inl e \<Rightarrow> Inl e
      | Inr y \<Rightarrow> (case map_e f xs of Inl e \<Rightarrow> Inl e | Inr ys \<Rightarrow> Inr (y # ys)))"

definition opt_e :: "('a \<Rightarrow> error + 'b) \<Rightarrow> 'a option \<Rightarrow> error + 'b option" where
  "opt_e f x = (case x of None \<Rightarrow> Inr None | Some a \<Rightarrow> bind_e (f a) (\<lambda>b. Inr (Some b)))"

type_synonym bytes = string

text \<open>
  One call of \<^verbatim>\<open>requests.get(url, timeout=TIMEOUT)\<close>: either a response with a status
  code and a body, or a raised exception (timeout, connection error).
\<close>

datatype outcome = Response int bytes | Raises error

definition RETRY_ATTEMPTS :: int where
  "RETRY_ATTEMPTS = 3"

text \<open>
  The body of the \<^verbatim>\<open>for attempt in range(retries)\<close> loop of \<^verbatim>\<open>download_single_file\<close>.
  \<open>get attempt\<close> is the outcome of the request made in that attempt. The result is
  \<open>Inr (Some content)\<close> for \<^verbatim>\<open>return r.content\<close>, \<open>Inr None\<close> for \<^verbatim>\<open>return None\<close>
  and \<open>Inl e\<close> for an exception that leaves the function. The calls of
  \<^verbatim>\<open>time.sleep\<close> and \<^verbatim>\<open>print\<close> change no value and are left out.
\<close>

fun download_loop :: "(int \<Rightarrow> outcome) \<Rightarrow> int \<Rightarrow> int list \<Rightarrow> error + bytes option" where
  "download_loop get retries [] = Inr None"
| "download_loop get retries (attempt # rest) =
     (case get attempt of
        Response status_code content \<Rightarrow>
          if status_code = 200 then Inr (Some content)
          else if status_code = 404 then Inr None
          else download_loop get retries rest
      | Raises e \<Rightarrow>
          if attempt = retries - 1 then Inr None
          else download_loop get retries rest)"

definition py_range :: "int \<Rightarrow> int list" where
  "py_range n = map int [0..<nat n]"

definition download_single_file :: "(int \<Rightarrow> outcome) \<Rightarrow> int \<Rightarrow> error + bytes option" where
  "download_single_file get retries = download_loop get retries (py_range retries)"

section \<open>Tables\<close>

text \<open>
  A cell of a pandas column. \<open>Null\<close> is NaN/NaT (an empty CSV field, or a left-join
  miss). \<open>Num x\<close> is a cell that pandas reads as the number \<open>x\<close>; floats are modelled as
  rationals. \<open>Time t\<close> is a UTC instant, \<open>t\<close> milliseconds after the epoch. \<open>Str s\<close> is a
  text cell that is no numeric literal, such as the header line of a provider CSV read
  with \<^verbatim>\<open>header=None\<close>.
\<close>

datatype cell = Null | Num rat | Time rat | Str string

text \<open>
  A row is an association list from column label to cell, a table its column labels and
  its rows in order. \<open>cell_of r c\<close> reads cell \<open>c\<close> of row \<open>r\<close>.
\<close>

type_synonym row = "(string \<times> cell) list"

record frame =
  columns :: "string list"
  rows :: "row list"

definition cell_of :: "row \<Rightarrow> string \<Rightarrow> cell" where
  "cell_of r c = (case map_of r c of None \<Rightarrow> Null | Some v \<Rightarrow> v)"

text \<open>\<^verbatim>\<open>df[c]\<close>, read as the list of its cells.\<close>

definition column :: "frame \<Rightarrow> string \<Rightarrow> cell list" where
  "column df c = map (\<lambda>r. cell_of r c) (rows df)"

text \<open>
  \<^verbatim>\<open>df.columns = names\<close>: the labels are replaced by position; pandas raises ValueError
  (length mismatch) when the table has another number of columns.
\<close>

definition set_columns :: "string list \<Rightarrow> frame \<Rightarrow> error + frame" where
  "set_columns names df =
     (if length names \<noteq> length (columns df) then Inl ValueError
      else Inr \<lparr>columns = names, rows = map (\<lambda>r. zip names (map snd r)) (rows df)\<rparr>)"

definition add_column :: "string \<Rightarrow> string list \<Rightarrow> string list" where
  "add_column c cs = (if c \<in> set cs then cs else cs @ [c])"

text \<open>
  \<^verbatim>\<open>df[c] = f(df[...])\<close> for a cell-by-cell \<open>f\<close>: an existing column is overwritten in
  place, a new one is appended. \<open>assign_e\<close> is the same for an \<open>f\<close> that can raise.
\<close>

definition assign :: "string \<Rightarrow> (row \<Rightarrow> cell) \<Rightarrow> frame \<Rightarrow> frame" where
  "assign c f df =
     \<lparr>columns = add_column c (columns df), rows = map (\<lambda>r. AList.update c (f r) r) (rows df)\<rparr>"

definition assign_e :: "string \<Rightarrow> (row \<Rightarrow> error + cell) \<Rightarrow> frame \<Rightarrow> error + frame" where
  "assign_e c f df =
     bind_e (map_e (\<lambda>r. bind_e (f r) (\<lambda>v. Inr (AList.update c v r))) (rows df))
       (\<lambda>rs. Inr \<lparr>columns = add_column c (columns df), rows = rs\<rparr>)"

definition set_column :: "string \<Rightarrow> cell list \<Rightarrow> frame \<Rightarrow> frame" where
  "set_column c vs df =
     \<lparr>columns = add_column c (columns df),
      rows = map (\<lambda>(r, v). AList.update c v r) (zip (rows df) vs)\<rparr>"

definition dropna :: "string \<Rightarrow> frame \<Rightarrow> frame" where
  "dropna c df = df\<lparr>rows := filter (\<lambda>r. cell_of r c \<noteq> Null) (rows df)\<rparr>"

definition drop_columns :: "string list \<Rightarrow> frame \<Rightarrow> frame" where
  "drop_columns cs df =
     \<lparr>columns = filter (\<lambda>c. c \<notin> set cs) (columns df),
      rows = map (filter (\<lambda>(c, v). c \<notin> set cs)) (rows df)\<rparr>"

text \<open>\<^verbatim>\<open>df[[c1, ..., cn]]\<close>; KeyError when a label is missing.\<close>

definition select_columns :: "string list \<Rightarrow> frame \<Rightarrow> error + frame" where
  "select_columns cs df =
     (if set cs \<subseteq> set (columns df)
      then Inr \<lparr>columns = cs, rows = map (\<lambda>r. map (\<lambda>c. (c, cell_of r c)) cs) (rows df)\<rparr>
      else Inl KeyError)"

definition rename_column :: "string \<Rightarrow> string \<Rightarrow> frame \<Rightarrow> frame" where
  "rename_column old new df =
     \<lparr>columns = map (\<lambda>c. if c = old then new else c) (columns df),
      rows = map (map (\<lambda>(c, v). (if c = old then new else c, v))) (rows df)\<rparr>"

text \<open>
  The coercions. \<^verbatim>\<open>pd.to_numeric(errors='coerce')\<close> turns what is no number into NaN;
  \<^verbatim>\<open>pd.to_datetime(unit="ms", utc=True)\<close> keeps NaN as NaT; \<^verbatim>\<open>astype(float)\<close> keeps
  NaN and raises on text; \<^verbatim>\<open>astype(int)\<close> truncates and raises on NaN and on text.
\<close>

fun to_numeric :: "cell \<Rightarrow> cell" where
  "to_numeric (Num x) = Num x"
| "to_numeric (Time x) = Num (x * 1000000)"
| "to_numeric (Str s) = Null"
| "to_numeric Null = Null"

fun to_datetime :: "cell \<Rightarrow> error + cell" where
  "to_datetime (Num x) = Inr (Time x)"
| "to_datetime (Time x) = Inr (Time x)"
| "to_datetime Null = Inr Null"
| "to_datetime (Str s) = Inl ValueError"

fun to_float :: "cell \<Rightarrow> error + cell" where
  "to_float (Num x) = Inr (Num x)"
| "to_float Null = Inr Null"
| "to_float (Str s) = Inl ValueError"
| "to_float (Time x) = Inl TypeError"

definition truncate :: "rat \<Rightarrow> int" where
  "truncate x = (if 0 \<le> x then \<lfloor>x\<rfloor> else \<lceil>x\<rceil>)"

fun to_int :: "cell \<Rightarrow> error + cell" where
  "to_int (Num x) = Inr (Num (of_int (truncate x)))"
| "to_int Null = Inl ValueError"
| "to_int (Str s) = Inl ValueError"
| "to_int (Time x) = Inl TypeError"

definition convert_row :: "(cell \<Rightarrow> error + cell) \<Rightarrow> string list \<Rightarrow> row \<Rightarrow> error + row" where
  "convert_row f cs r =
     map_e (\<lambda>(c, v). if c \<in> set cs then bind_e (f v) (\<lambda>v'. Inr (c, v')) else Inr (c, v)) r"

text \<open>\<^verbatim>\<open>df[cs] = df[cs].astype(...)\<close> with the coercion \<open>f\<close>.\<close>

definition astype :: "(cell \<Rightarrow> error + cell) \<Rightarrow> string list \<Rightarrow> frame \<Rightarrow> error + frame" where
  "astype f cs df = bind_e (map_e (convert_row f cs) (rows df)) (\<lambda>rs. Inr (df\<lparr>rows := rs\<rparr>))"

text \<open>Float subtraction and addition; NaN on either side gives NaN.\<close>

fun cell_sub :: "cell \<Rightarrow> cell \<Rightarrow> cell" where
  "cell_sub (Num a) (Num b) = Num (a - b)"
| "cell_sub a b = Null"

fun cell_add :: "cell \<Rightarrow> cell \<Rightarrow> cell" where
  "cell_add (Num a) (Num b) = Num (a + b)"
| "cell_add a b = Null"

definition key :: string where
  "key = ''timestamp_utc''"

section \<open>The validator\<close>

text \<open>
  \<^verbatim>\<open>Series.duplicated()\<close>: a cell is flagged when an equal cell occurs earlier (pandas
  takes two NaN for equal here). \<^verbatim>\<open>drop_duplicates(subset=[c], keep='first')\<close> drops the
  flagged rows.
\<close>

fun duplicated :: "cell list \<Rightarrow> cell list \<Rightarrow> bool list" where
  "duplicated seen [] = []"
| "duplicated seen (x # xs) = (x \<in> set seen) # duplicated (x # seen) xs"

definition drop_duplicates :: "string \<Rightarrow> frame \<Rightarrow> frame" where
  "drop_duplicates c df =
     df\<lparr>rows := map fst (filter (\<lambda>(r, d). \<not> d) (zip (rows df) (duplicated [] (column df c))))\<rparr>"

text \<open>
  \<^verbatim>\<open>validate_data(df, name)\<close>. The null counts, the largest gap and the number of gaps
  above 120 seconds are only printed (the gaps from a sorted copy); the value returned is
  \<open>df\<close>, without its duplicate timestamps when there are any.
\<close>

definition validate_data :: "frame \<Rightarrow> frame" where
  "validate_data df =
     (if key \<in> set (columns df) then
        (let dupes = length (filter id (duplicated [] (column df key)))
         in if dupes > 0 then drop_duplicates key df else df)
      else df)"

section \<open>Steps 1 to 5: normalising the series\<close>

definition kline_names :: "string list" where
  "kline_names = [''open_time'', ''open'', ''high'', ''low'', ''close'', ''volume'', ''close_time'',
     ''quote_volume'', ''num_trades'', ''taker_buy_base_vol'', ''taker_buy_quote_vol'', ''ignore'']"

definition float_cols :: "string list" where
  "float_cols = [''open'', ''high'', ''low'', ''close'', ''volume'', ''quote_volume'',
     ''taker_buy_base_vol'', ''taker_buy_quote_vol'']"

text \<open>Step 1 after the fetch: the klines table as \<^verbatim>\<open>fetch_binance_zip_parallel\<close> returned it.\<close>

definition step1 :: "frame \<Rightarrow> error + frame" where
  "step1 raw =
     bind_e (set_columns kline_names raw) (\<lambda>df.
     let df = assign ''open_time'' (\<lambda>r. to_numeric (cell_of r ''open_time'')) df;
         df = dropna ''open_time'' df
     in bind_e (assign_e key (\<lambda>r. to_datetime (cell_of r ''open_time'')) df) (\<lambda>df.
     let df = drop_columns [''ignore'', ''close_time'', ''open_time''] df
     in bind_e (astype to_float float_cols df) (\<lambda>df.
     bind_e (astype to_int [''num_trades''] df) (\<lambda>df.
     let df = assign ''taker_sell_base_vol''
                (\<lambda>r. cell_sub (cell_of r ''volume'') (cell_of r ''taker_buy_base_vol'')) df;
         df = assign ''taker_sell_quote_vol''
                (\<lambda>r. cell_sub (cell_of r ''quote_volume'') (cell_of r ''taker_buy_quote_vol'')) df
     in Inr (validate_data df)))))"

definition mark_names :: "string list" where
  "mark_names = [''open_time'', ''mark_open'', ''mark_high'', ''mark_low'', ''mark_close'',
     ''ignore1'', ''close_time'', ''ignore2'', ''ignore3'', ''ignore4'', ''ignore5'', ''ignore6'']"

definition mark_cols :: "string list" where
  "mark_cols = [''mark_open'', ''mark_high'', ''mark_low'', ''mark_close'']"

definition index_names :: "string list" where
  "index_names = [''open_time'', ''index_open'', ''index_high'', ''index_low'', ''index_close'',
     ''ignore1'', ''close_time'', ''ignore2'', ''ignore3'', ''ignore4'', ''ignore5'', ''ignore6'']"

definition index_cols :: "string list" where
  "index_cols = [''index_open'', ''index_high'', ''index_low'', ''index_close'']"

text \<open>Steps 2 and 3 are the same code on the mark and the index labels.\<close>

definition price_klines :: "string list \<Rightarrow> string list \<Rightarrow> frame \<Rightarrow> error + frame" where
  "price_klines names cols raw =
     bind_e (set_columns names raw) (\<lambda>df.
     let df = assign ''open_time'' (\<lambda>r. to_numeric (cell_of r ''open_time'')) df;
         df = dropna ''open_time'' df
     in bind_e (assign_e key (\<lambda>r. to_datetime (cell_of r ''open_time'')) df) (\<lambda>df.
     bind_e (select_columns (key # cols) df) (\<lambda>df.
     bind_e (astype to_float cols df) (\<lambda>df.
     Inr (validate_data df)))))"

definition step2 :: "frame \<Rightarrow> error + frame" where
  "step2 = price_klines mark_names mark_cols"

definition step3 :: "frame \<Rightarrow> error + frame" where
  "step3 = price_klines index_names index_cols"

text \<open>
  Step 4 after its download loop: \<open>funding\<close> is \<^verbatim>\<open>pd.concat(fund_dfs)\<close>, whose
  \<^verbatim>\<open>fundingTime\<close> the loop has already turned into instants.
\<close>

definition step4 :: "frame \<Rightarrow> error + frame" where
  "step4 funding =
     bind_e (select_columns [''fundingTime'', ''fundingRate''] funding) (\<lambda>df.
     astype to_float [''fundingRate''] (rename_column ''fundingTime'' key df))"

text \<open>
  Step 5. A snapshot of the open-interest endpoint, with the two fields the script reads.
  A request returns a JSON page or raises (transport error, undecodable body).
\<close>

record snapshot =
  timestamp :: int
  sumOpenInterest :: rat

datatype response = Page "snapshot list" | Failed error

datatype step = Break "snapshot list" | Continue "snapshot list" int

text \<open>
  One round of the \<^verbatim>\<open>while True\<close> loop on the response of its request: \<open>Break d\<close> leaves
  the loop with \<^verbatim>\<open>oi_data = d\<close>, \<open>Continue d t\<close> goes on with \<^verbatim>\<open>oi_data = d\<close> and
  \<^verbatim>\<open>params["startTime"] = t\<close>.
\<close>

definition oi_iteration :: "response \<Rightarrow> snapshot list \<Rightarrow> step" where
  "oi_iteration resp oi_data =
     (case resp of
        Failed e \<Rightarrow> Break oi_data
      | Page data \<Rightarrow>
          if data = [] then Break oi_data
          else if length data < 500 then Break (oi_data @ data)
          else Continue (oi_data @ data) (timestamp (last data) + 60000))"

text \<open>
  The loop. \<open>api startTime n\<close> is the endpoint's response to request number \<open>n\<close>, made
  with that \<^verbatim>\<open>startTime\<close> (none in the first request). The loop need not end: the result
  is \<open>None\<close> then, and otherwise the snapshots collected and the number of requests made.
\<close>

partial_function (option) oi_loop ::
  "(int option \<Rightarrow> nat \<Rightarrow> response) \<Rightarrow> int option \<Rightarrow> nat \<Rightarrow> snapshot list
     \<Rightarrow> (snapshot list \<times> nat) option" where
  "oi_loop api startTime n oi_data =
     (case oi_iteration (api startTime n) oi_data of
        Break d \<Rightarrow> Some (d, Suc n)
      | Continue d t \<Rightarrow> oi_loop api (Some t) (Suc n) d)"

declare oi_loop.simps [code]

definition step5 :: "snapshot list \<Rightarrow> frame option" where
  "step5 oi_data =
     (if oi_data = [] then None
      else Some \<lparr>columns = [key, ''open_interest''],
                 rows = map (\<lambda>s. [(key, Time (of_int (timestamp s))),
                                   (''open_interest'', Num (sumOpenInterest s))]) oi_data\<rparr>)"

section \<open>Steps 6 and 7: merging\<close>

text \<open>
  \<^verbatim>\<open>l.merge(r, on="timestamp_utc", how="left")\<close>. Every left row, in order, is paired
  with each right row of the same key, in order, or with nulls when there is none. A label
  other than the key that both tables have gets the suffixes \<^verbatim>\<open>_x\<close> and \<^verbatim>\<open>_y\<close>.
\<close>

definition merge_left :: "frame \<Rightarrow> frame \<Rightarrow> frame" where
  "merge_left l r =
     (let both = filter (\<lambda>c. c \<noteq> key \<and> c \<in> set (columns r)) (columns l);
          suffix = (\<lambda>s c. if c \<in> set both then c @ s else c);
          rcols = filter (\<lambda>c. c \<noteq> key) (columns r);
          lrow = (\<lambda>a. map (\<lambda>c. (suffix ''_x'' c, cell_of a c)) (columns l));
          rrow = (\<lambda>b. map (\<lambda>c. (suffix ''_y'' c, cell_of b c)) rcols);
          nulls = map (\<lambda>c. (suffix ''_y'' c, Null)) rcols
      in \<lparr>columns = map (suffix ''_x'') (columns l) @ map (suffix ''_y'') rcols,
          rows = concat (map (\<lambda>a.
                   case filter (\<lambda>b. cell_of b key = cell_of a key) (rows r) of
                     [] \<Rightarrow> [lrow a @ nulls]
                   | m # ms \<Rightarrow> map (\<lambda>b. lrow a @ rrow b) (m # ms)) (rows l))\<rparr>)"

text \<open>No label but the key is in both tables: the join renames nothing.\<close>

definition disjoint_labels :: "frame \<Rightarrow> frame \<Rightarrow> bool" where
  "disjoint_labels l r = (\<forall>c \<in> set (columns l). c = key \<or> c \<notin> set (columns r))"

text \<open>\<^verbatim>\<open>Series.ffill()\<close>: a null cell takes the last non-null cell above it, in row order.\<close>

fun ffill :: "cell \<Rightarrow> cell list \<Rightarrow> cell list" where
  "ffill prev [] = []"
| "ffill prev (x # xs) = (if x = Null then prev # ffill prev xs else x # ffill x xs)"

definition ffill_column :: "string \<Rightarrow> frame \<Rightarrow> frame" where
  "ffill_column c df = set_column c (ffill Null (column df c)) df"

definition step6 ::
  "frame \<Rightarrow> frame option \<Rightarrow> frame option \<Rightarrow> frame option \<Rightarrow> frame option \<Rightarrow> frame" where
  "step6 df mark index funding df_oi =
     (let full = df;
          full = (case mark of None \<Rightarrow> full | Some m \<Rightarrow> merge_left full m);
          full = (case index of None \<Rightarrow> full | Some i \<Rightarrow> merge_left full i);
          full = (case funding of None \<Rightarrow> full
                  | Some f \<Rightarrow> ffill_column ''fundingRate'' (merge_left full f));
          full = (case df_oi of None \<Rightarrow> full | Some oi \<Rightarrow> merge_left full oi)
      in full)"

text \<open>
  The value of \<^verbatim>\<open>full\<close> after the mark, the index and the funding join of step 6 (the
  forward fill included); \<open>step6\<close> is the value after the open-interest join.
\<close>

definition after_mark :: "frame \<Rightarrow> frame option \<Rightarrow> frame" where
  "after_mark df mark = (case mark of None \<Rightarrow> df | Some m \<Rightarrow> merge_left df m)"

definition after_index :: "frame \<Rightarrow> frame option \<Rightarrow> frame option \<Rightarrow> frame" where
  "after_index df mark index =
     (case index of None \<Rightarrow> after_mark df mark | Some i \<Rightarrow> merge_left (after_mark df mark) i)"

definition after_funding ::
  "frame \<Rightarrow> frame option \<Rightarrow> frame option \<Rightarrow> frame option \<Rightarrow> frame" where
  "after_funding df mark index funding =
     (case funding of
        None \<Rightarrow> after_index df mark index
      | Some f \<Rightarrow> ffill_column ''fundingRate'' (merge_left (after_index df mark index) f))"

text \<open>
  \<open>kept l out\<close>: the table \<open>out\<close> has as many rows as \<open>l\<close>, and row by row, in order, the
  cell under every label of \<open>l\<close> is the one of \<open>l\<close>.
\<close>

definition kept :: "frame \<Rightarrow> frame \<Rightarrow> bool" where
  "kept l out =
     list_all2 (\<lambda>a b. \<forall>c \<in> set (columns l). cell_of b c = cell_of a c) (rows l) (rows out)"

text \<open>
  \<^verbatim>\<open>sort_values\<close> orders instants ascending with NaT last. pandas does not promise the
  order of rows with equal keys; the model keeps them in their order.
\<close>

definition sort_rank :: "cell \<Rightarrow> nat \<times> rat" where
  "sort_rank v = (case v of Time x \<Rightarrow> (0, x) | Num x \<Rightarrow> (0, x) | Str s \<Rightarrow> (1, 0) | Null \<Rightarrow> (1, 0))"

definition sort_values :: "string \<Rightarrow> frame \<Rightarrow> frame" where
  "sort_values c df = df\<lparr>rows := sort_key (\<lambda>r. sort_rank (cell_of r c)) (rows df)\<rparr>"

text \<open>Step 7 up to the table that is saved; the OHLC check only prints.\<close>

definition step7 :: "frame \<Rightarrow> frame" where
  "step7 full = drop_duplicates key (sort_values key full)"

text \<open>A table with the key column whose every timestamp is an instant.\<close>

definition timed :: "frame \<Rightarrow> bool" where
  "timed df = (key \<in> set (columns df) \<and> (\<forall>r \<in> set (rows df). \<exists>t. cell_of r key = Time t))"

section \<open>The script\<close>

text \<open>
  The script from the results of its fetches: the three tables of
  \<^verbatim>\<open>fetch_binance_zip_parallel\<close>, the funding table of step 4's loop (each \<^verbatim>\<open>None\<close> when
  nothing was decoded) and the snapshots of step 5's loop. \<open>Inr full\<close> is the table that
  step 7 saves.
\<close>

definition pipeline ::
  "frame option \<Rightarrow> frame option \<Rightarrow> frame option \<Rightarrow> frame option \<Rightarrow> snapshot list
     \<Rightarrow> error + frame" where
  "pipeline klines mark_raw index_raw funding_raw oi_data =
     (case klines of
        None \<Rightarrow> Inl (Exception ''Failed to fetch klines data!'')
      | Some raw \<Rightarrow>
          bind_e (step1 raw) (\<lambda>df.
          bind_e (opt_e step2 mark_raw) (\<lambda>mark.
          bind_e (opt_e step3 index_raw) (\<lambda>index.
          bind_e (opt_e step4 funding_raw) (\<lambda>funding.
          Inr (step7 (step6 df mark index funding (step5 oi_data))))))))"











section \<open>Sample inputs\<close>

text \<open>
  A klines archive as read with \<^verbatim>\<open>header=None\<close>: twelve columns labelled by position.
  \<open>kline t\<close> is the bar that opens at \<open>t\<close>; \<open>kline_no_buy\<close> has an empty taker-buy base
  volume, \<open>kline_no_trades\<close> an empty trade count.
\<close>

definition raw_names :: "string list" where
  "raw_names = [''c0'', ''c1'', ''c2'', ''c3'', ''c4'', ''c5'', ''c6'', ''c7'', ''c8'', ''c9'',
     ''c10'', ''c11'']"

definition raw_table :: "cell list list \<Rightarrow> frame" where
  "raw_table rs = \<lparr>columns = raw_names, rows = map (zip raw_names) rs\<rparr>"

definition kline :: "rat \<Rightarrow> cell list" where
  "kline t = [Num t, Num 10, Num 12, Num 9, Num 11, Num 5, Num (t + 59999), Num 55, Num 7,
              Num 2, Num 22, Num 0]"

definition kline_no_buy :: "cell list" where
  "kline_no_buy = [Num 0, Num 10, Num 12, Num 9, Num 11, Num 5, Num 59999, Num 55, Num 7,
              Null, Num 22, Num 0]"


text \<open>The labels of the normalised klines table, and the bar \<open>kline 0\<close> normalised.\<close>

definition kline_cols :: "string list" where
  "kline_cols = [''open'', ''high'', ''low'', ''close'', ''volume'', ''quote_volume'', ''num_trades'',
     ''taker_buy_base_vol'', ''taker_buy_quote_vol'', ''timestamp_utc'', ''taker_sell_base_vol'',
     ''taker_sell_quote_vol'']"

definition bar0 :: row where
  "bar0 = [(''open'', Num 10), (''high'', Num 12), (''low'', Num 9), (''close'', Num 11),
     (''volume'', Num 5), (''quote_volume'', Num 55), (''num_trades'', Num 7),
     (''taker_buy_base_vol'', Num 2), (''taker_buy_quote_vol'', Num 22), (key, Time 0),
     (''taker_sell_base_vol'', Num 3), (''taker_sell_quote_vol'', Num 33)]"

text \<open>
  Three bars whose archives completed out of order (minute 1, minute 2, minute 0), and
  two funding events, at minute 0 and at minute 2.
\<close>

definition klines3 :: frame where
  "klines3 = raw_table [kline 60000, kline 120000, kline 0]"

definition funding2 :: frame where
  "funding2 = \<lparr>columns = [''fundingTime'', ''fundingRate''],
     rows = [[(''fundingTime'', Time 0), (''fundingRate'', Num 1)],
             [(''fundingTime'', Time 120000), (''fundingRate'', Num 3)]]\<rparr>"

text \<open>The same funding events after step 4.\<close>

definition funding2n :: frame where
  "funding2n = \<lparr>columns = [key, ''fundingRate''],
     rows = [[(key, Time 0), (''fundingRate'', Num 1)],
             [(key, Time 120000), (''fundingRate'', Num 3)]]\<rparr>"

definition mark1 :: frame where
  "mark1 = raw_table [[Num 60000, Num 10, Num 12, Num 9, Num 11, Num 0, Num 119999, Num 0,
                       Num 0, Num 0, Num 0, Num 0]]"

text \<open>
  The table saved from \<open>klines3\<close> and \<open>funding2\<close>: a normalised bar with its funding rate.
\<close>

definition bar :: "rat \<Rightarrow> cell \<Rightarrow> row" where
  "bar t funding_rate =
     [(''open'', Num 10), (''high'', Num 12), (''low'', Num 9), (''close'', Num 11),
      (''volume'', Num 5), (''quote_volume'', Num 55), (''num_trades'', Num 7),
      (''taker_buy_base_vol'', Num 2), (''taker_buy_quote_vol'', Num 22), (key, Time t),
      (''taker_sell_base_vol'', Num 3), (''taker_sell_quote_vol'', Num 33),
      (''fundingRate'', funding_rate)]"

definition saved3 :: frame where
  "saved3 = \<lparr>columns = kline_cols @ [''fundingRate''],
              rows = [bar 0 (Num 1), bar 60000 Null, bar 120000 (Num 3)]\<rparr>"

text \<open>A mark table of two minutes, already normalised.\<close>

definition clean2 :: frame where
  "clean2 = \<lparr>columns = [key, ''mark_open''],
     rows = [[(key, Time 0), (''mark_open'', Num 10)], [(key, Time 60000), (''mark_open'', Null)]]\<rparr>"

text \<open>Open-interest endpoints: three pages of 500, 500 and 200 rows; one that times out.\<close>

definition snap :: "int \<Rightarrow> snapshot" where
  "snap t = \<lparr>timestamp = t, sumOpenInterest = 1\<rparr>"

text \<open>The open-interest table that step 5 makes of the one snapshot \<open>snap 0\<close>.\<close>

definition oi0 :: frame where
  "oi0 = \<lparr>columns = [key, ''open_interest''],
           rows = [[(key, Time 0), (''open_interest'', Num 1)]]\<rparr>"

definition three_pages :: "int option \<Rightarrow> nat \<Rightarrow> response" where
  "three_pages startTime n =
     (if startTime = None then Page (replicate 500 (snap 0))
      else if startTime = Some 60000 then Page (replicate 500 (snap 60000))
      else Page (replicate 200 (snap 120000)))"

definition timing_out :: "int option \<Rightarrow> nat \<Rightarrow> response" where
  "timing_out startTime n = Failed (Exception ''timeout'')"




section \<open>Retry policy\<close>

lemma download_loop_returns: "\<exists>r. download_loop get retries as = Inr r"
  by (induction as) (auto split: outcome.splits)

lemma py_range_3: "py_range 3 = [0, 1, 2]"
  by (simp add: py_range_def numeral_3_eq_3)

text \<open>
  C4. With the default budget of three attempts: a URL whose first two requests raise a
  transport error and whose third answers 200 with body \<open>B\<close> yields \<open>B\<close>, which is also
  what a URL answering 200 with \<open>B\<close> at once yields; a URL that answers 404 to every
  request yields \<^verbatim>\<open>None\<close>, and no exception leaves the function.
\<close>

theorem download_retry_policy:
  "(get 0 = Raises e0 \<and> get 1 = Raises e1 \<and> get 2 = Response 200 B \<and> get' 0 = Response 200 B
      \<longrightarrow> download_single_file get RETRY_ATTEMPTS = Inr (Some B)
        \<and> download_single_file get' RETRY_ATTEMPTS = Inr (Some B))
   \<and> ((\<forall>attempt. \<exists>body. get attempt = Response 404 body)
      \<longrightarrow> download_single_file get RETRY_ATTEMPTS = Inr None)"
proof (intro conjI impI)
  assume a: "get 0 = Raises e0 \<and> get 1 = Raises e1 \<and> get 2 = Response 200 B \<and> get' 0 = Response 200 B"
  then show "download_single_file get RETRY_ATTEMPTS = Inr (Some B)"
    by (simp add: download_single_file_def RETRY_ATTEMPTS_def py_range_3)
  from a show "download_single_file get' RETRY_ATTEMPTS = Inr (Some B)"
    by (simp add: download_single_file_def RETRY_ATTEMPTS_def py_range_3)
next
  assume "\<forall>attempt. \<exists>body. get attempt = Response 404 body"
  then obtain body where "get 0 = Response 404 body" by blast
  then show "download_single_file get RETRY_ATTEMPTS = Inr None"
    by (simp add: download_single_file_def RETRY_ATTEMPTS_def py_range_3)
qed

theorem download_retry_policy_witness:
  "download_single_file (\<lambda>a. if a = 2 then Response 200 ''PK'' else Raises (Exception ''timeout''))
      RETRY_ATTEMPTS = Inr (Some ''PK'')
   \<and> download_single_file (\<lambda>a. Response 200 ''PK'') RETRY_ATTEMPTS = Inr (Some ''PK'')
   \<and> download_single_file (\<lambda>a. Response 404 []) RETRY_ATTEMPTS = Inr None"
  using download_retry_policy
    [of "\<lambda>a. if a = 2 then Response 200 ''PK'' else Raises (Exception ''timeout'')"
        "Exception ''timeout''" "Exception ''timeout''" "''PK''" "\<lambda>a. Response 200 ''PK''"]
    download_retry_policy [of "\<lambda>a. Response 404 []"]
  by simp

text \<open>
  C9. Whatever the requests do (any status codes, any raised exceptions) and whatever the
  retry budget, \<^verbatim>\<open>download_single_file\<close> returns the body or \<^verbatim>\<open>None\<close>; no exception
  reaches the caller.
\<close>

theorem download_single_file_total:
  "\<exists>r. download_single_file get retries = Inr r"
  unfolding download_single_file_def by (rule download_loop_returns)


section \<open>The open-interest loop\<close>

lemma oi_loop_break:
  "r = api s n \<Longrightarrow> oi_iteration r acc = Break d \<Longrightarrow> oi_loop api s n acc = Some (d, Suc n)"
  by (subst oi_loop.simps) simp

lemma oi_loop_continue:
  "r = api s n \<Longrightarrow> oi_iteration r acc = Continue d t \<Longrightarrow>
   oi_loop api s n acc = oi_loop api (Some t) (Suc n) d"
  by (subst oi_loop.simps) simp

text \<open>
  C6, as amended. A round of the loop leaves it exactly when its request failed or its
  page has fewer than 500 rows (an empty page among them); after a failed request the
  loop returns what it had, after a short page what it had and the page, and after a page
  of 500 rows or more it goes on with \<^verbatim>\<open>startTime\<close> set to the last snapshot's
  timestamp plus 60000. Pages of 500, 500 and 200 rows give 1200 snapshots in three
  requests.
\<close>

theorem oi_polling:
  "((\<exists>d. oi_iteration resp acc = Break d) \<longleftrightarrow>
      (\<exists>e. resp = Failed e) \<or> (\<exists>data. resp = Page data \<and> length data < 500))
   \<and> (api s n = Failed e \<longrightarrow> oi_loop api s n acc = Some (acc, Suc n))
   \<and> (api s n = Page data \<and> length data < 500 \<longrightarrow> oi_loop api s n acc = Some (acc @ data, Suc n))
   \<and> (api s n = Page data \<and> 500 \<le> length data \<longrightarrow>
        oi_loop api s n acc = oi_loop api (Some (timestamp (last data) + 60000)) (Suc n) (acc @ data))
   \<and> (api None 0 = Page p1 \<and> length p1 = 500
        \<and> api (Some (timestamp (last p1) + 60000)) 1 = Page p2 \<and> length p2 = 500
        \<and> api (Some (timestamp (last p2) + 60000)) 2 = Page p3 \<and> length p3 = 200
      \<longrightarrow> oi_loop api None 0 [] = Some (p1 @ p2 @ p3, 3) \<and> length (p1 @ p2 @ p3) = 1200)"
proof (intro conjI impI)
  show "(\<exists>d. oi_iteration resp acc = Break d) \<longleftrightarrow>
      (\<exists>e. resp = Failed e) \<or> (\<exists>data. resp = Page data \<and> length data < 500)"
    by (cases resp) (auto simp: oi_iteration_def)
next
  assume "api s n = Failed e"
  then show "oi_loop api s n acc = Some (acc, Suc n)"
    by (intro oi_loop_break [of "Failed e"]) (simp_all add: oi_iteration_def)
next
  assume "api s n = Page data \<and> length data < 500"
  then show "oi_loop api s n acc = Some (acc @ data, Suc n)"
    by (intro oi_loop_break [of "Page data"]) (simp_all add: oi_iteration_def)
next
  assume "api s n = Page data \<and> 500 \<le> length data"
  then show "oi_loop api s n acc = oi_loop api (Some (timestamp (last data) + 60000)) (Suc n) (acc @ data)"
    by (intro oi_loop_continue [of "Page data"]) (auto simp: oi_iteration_def)
next
  assume a: "api None 0 = Page p1 \<and> length p1 = 500
        \<and> api (Some (timestamp (last p1) + 60000)) 1 = Page p2 \<and> length p2 = 500
        \<and> api (Some (timestamp (last p2) + 60000)) 2 = Page p3 \<and> length p3 = 200"
  have 1: "oi_loop api None 0 [] = oi_loop api (Some (timestamp (last p1) + 60000)) (Suc 0) p1"
    using a by (intro oi_loop_continue [of "Page p1"]) (auto simp: oi_iteration_def)
  have 2: "oi_loop api (Some (timestamp (last p1) + 60000)) (Suc 0) p1
             = oi_loop api (Some (timestamp (last p2) + 60000)) (Suc (Suc 0)) (p1 @ p2)"
    using a by (intro oi_loop_continue [of "Page p2"]) (auto simp: oi_iteration_def)
  have 3: "oi_loop api (Some (timestamp (last p2) + 60000)) (Suc (Suc 0)) (p1 @ p2)
             = Some ((p1 @ p2) @ p3, Suc (Suc (Suc 0)))"
    using a by (intro oi_loop_break [of "Page p3"]) (auto simp: oi_iteration_def numeral_2_eq_2)
  show "oi_loop api None 0 [] = Some (p1 @ p2 @ p3, 3)"
    by (simp add: 1 2 3 numeral_3_eq_3)
  show "length (p1 @ p2 @ p3) = 1200" using a by simp
qed

theorem oi_polling_witness:
  "oi_loop three_pages None 0 [] =
     Some (replicate 500 (snap 0) @ replicate 500 (snap 60000) @ replicate 200 (snap 120000), 3)
   \<and> length (replicate 500 (snap 0) @ replicate 500 (snap 60000) @ replicate 200 (snap 120000)) = 1200
   \<and> oi_loop timing_out None 0 [] = Some ([], 1)"
  using oi_polling [where api = timing_out and s = None and n = 0 and acc = "[]"
      and e = "Exception ''timeout''"]
    oi_polling [where api = three_pages and ?p1.0 = "replicate 500 (snap 0)"
      and ?p2.0 = "replicate 500 (snap 60000)" and ?p3.0 = "replicate 200 (snap 120000)"]
  by (simp add: three_pages_def snap_def timing_out_def)

text \<open>
  C6 as stated fails: an endpoint that times out ends the loop after its first request,
  and no page was empty or short.
\<close>

theorem oi_terminates_without_short_page:
  "oi_loop timing_out None 0 [] = Some ([], 1) \<and> timing_out None 0 = Failed (Exception ''timeout'')"
  by (simp add: oi_loop_break [of "Failed (Exception ''timeout'')"] oi_iteration_def timing_out_def)


section \<open>The validator\<close>

lemma duplicated_length: "length (duplicated seen xs) = length xs"
  by (induction xs arbitrary: seen) auto

lemma duplicated_distinct:
  "distinct xs \<Longrightarrow> set xs \<inter> set seen = {} \<Longrightarrow> filter id (duplicated seen xs) = []"
  by (induction xs arbitrary: seen) auto

lemma kept_keys:
  "distinct (map k (map fst (filter (\<lambda>(r, d). \<not> d) (zip rs (duplicated seen (map k rs))))))
   \<and> set (map k (map fst (filter (\<lambda>(r, d). \<not> d) (zip rs (duplicated seen (map k rs))))))
       \<inter> set seen = {}"
proof (induction rs arbitrary: seen)
  case Nil
  show ?case by simp
next
  case (Cons r rs)
  from Cons [of "k r # seen"] show ?case by auto
qed

lemma kept_subset:
  "set (map fst (filter (\<lambda>(r, d). \<not> d) (zip rs ds))) \<subseteq> set rs"
  by (auto dest: set_zip_leftD)

lemma kept_sorted:
  "sorted (map f rs) \<Longrightarrow>
   sorted (map f (map fst (filter (\<lambda>(r, d). \<not> d) (zip rs (duplicated seen (map k rs))))))"
proof (induction rs arbitrary: seen)
  case Nil
  show ?case by simp
next
  case (Cons r rs)
  let ?kept = "map fst (filter (\<lambda>(r, d). \<not> d) (zip rs (duplicated (k r # seen) (map k rs))))"
  from Cons.prems have s: "sorted (map f rs)" and le: "\<forall>x \<in> set rs. f r \<le> f x" by auto
  have "sorted (map f ?kept)" using Cons.IH [OF s] .
  moreover have "set ?kept \<subseteq> set rs" by (rule kept_subset)
  ultimately show ?case using le by auto
qed

lemma drop_duplicates_distinct: "distinct (column (drop_duplicates c df) c)"
  using kept_keys [of "\<lambda>r. cell_of r c" "rows df" "[]"]
  by (simp add: drop_duplicates_def column_def)

lemma drop_duplicates_subset: "set (rows (drop_duplicates c df)) \<subseteq> set (rows df)"
  using kept_subset [of "rows df" "duplicated [] (column df c)"]
  by (simp add: drop_duplicates_def)

lemma drop_duplicates_columns: "columns (drop_duplicates c df) = columns df"
  by (simp add: drop_duplicates_def)

lemma validate_data_unique: "distinct (column df key) \<Longrightarrow> validate_data df = df"
  by (simp add: validate_data_def duplicated_distinct)

lemma validate_data_subset: "set (rows (validate_data df)) \<subseteq> set (rows df)"
  using drop_duplicates_subset [of key df] by (simp add: validate_data_def Let_def)

lemma validate_data_columns: "columns (validate_data df) = columns df"
  by (simp add: validate_data_def Let_def drop_duplicates_columns)

lemma validate_data_distinct:
  "key \<in> set (columns df) \<Longrightarrow> distinct (column (validate_data df) key)"
proof (cases "filter id (duplicated [] (column df key)) = []")
  case True
  assume "key \<in> set (columns df)"
  have "distinct (column (drop_duplicates key df) key)" by (rule drop_duplicates_distinct)
  moreover have "drop_duplicates key df = df"
  proof -
    from True have "\<forall>d \<in> set (duplicated [] (column df key)). \<not> d"
      by (auto simp: filter_empty_conv)
    then have "filter (\<lambda>(r, d). \<not> d) (zip (rows df) (duplicated [] (column df key)))
                 = zip (rows df) (duplicated [] (column df key))"
      by (auto simp: filter_id_conv dest: set_zip_rightD)
    then show ?thesis
      by (simp add: drop_duplicates_def duplicated_length column_def)
  qed
  ultimately show ?thesis using True by (simp add: validate_data_def)
next
  case False
  assume "key \<in> set (columns df)"
  with False show ?thesis by (simp add: validate_data_def drop_duplicates_distinct)
qed

text \<open>
  C8. On a table whose timestamps are unique the validator returns the table itself, the
  same rows in the same order, so that a second application changes nothing either; that
  the timestamps are sorted is not needed. On any table a second application returns
  what the first returned.
\<close>

theorem validate_data_idempotent:
  "(distinct (column df key) \<longrightarrow> validate_data df = df \<and> validate_data (validate_data df) = df)
   \<and> validate_data (validate_data df) = validate_data df"
proof (intro conjI impI)
  assume d: "distinct (column df key)"
  then show 1: "validate_data df = df" by (rule validate_data_unique)
  then show "validate_data (validate_data df) = df" by simp
next
  show "validate_data (validate_data df) = validate_data df"
  proof (cases "key \<in> set (columns df)")
    case True
    then have "distinct (column (validate_data df) key)" by (rule validate_data_distinct)
    then show ?thesis by (rule validate_data_unique)
  next
    case False
    then show ?thesis by (simp add: validate_data_def)
  qed
qed

theorem validate_data_idempotent_witness:
  "distinct (column clean2 key) \<and> validate_data clean2 = clean2
   \<and> validate_data (validate_data clean2) = clean2"
  using validate_data_idempotent [of clean2]
  by (simp add: clean2_def column_def cell_of_def key_def)


section \<open>The left join\<close>

lemma cell_of_labelled:
  "cell_of (map (\<lambda>c. (c, f c)) cs @ rest) c = (if c \<in> set cs then f c else cell_of rest c)"
  by (induction cs) (auto simp: cell_of_def)

lemma cell_of_labelled':
  "c \<in> set cs \<Longrightarrow> cell_of (map (\<lambda>c. (c, f c)) cs @ rest) c = f c"
  by (simp add: cell_of_labelled)

lemma filter_unique:
  "distinct (map k xs) \<Longrightarrow> filter (\<lambda>b. k b = v) xs = [] \<or> (\<exists>m. filter (\<lambda>b. k b = v) xs = [m])"
proof (induction xs)
  case Nil
  show ?case by simp
next
  case (Cons x xs)
  show ?case
  proof (cases "k x = v")
    case True
    from Cons.prems have "k x \<notin> k ` set xs" by simp
    with True have "\<forall>b \<in> set xs. k b \<noteq> v" by blast
    then have "filter (\<lambda>b. k b = v) xs = []" by (simp add: filter_empty_conv)
    with True show ?thesis by simp
  next
    case False
    with Cons show ?thesis by simp
  qed
qed

lemma merge_left_fresh:
  assumes "disjoint_labels l r"
  shows "merge_left l r =
     \<lparr>columns = columns l @ filter (\<lambda>c. c \<noteq> key) (columns r),
      rows = concat (map (\<lambda>a.
               case filter (\<lambda>b. cell_of b key = cell_of a key) (rows r) of
                 [] \<Rightarrow> [map (\<lambda>c. (c, cell_of a c)) (columns l)
                         @ map (\<lambda>c. (c, Null)) (filter (\<lambda>c. c \<noteq> key) (columns r))]
               | m # ms \<Rightarrow> map (\<lambda>b. map (\<lambda>c. (c, cell_of a c)) (columns l)
                         @ map (\<lambda>c. (c, cell_of b c)) (filter (\<lambda>c. c \<noteq> key) (columns r)))
                         (m # ms)) (rows l))\<rparr>"
  proof -
  from assms have "filter (\<lambda>c. c \<noteq> key \<and> c \<in> set (columns r)) (columns l) = []"
    by (auto simp: disjoint_labels_def filter_empty_conv)
  then show ?thesis unfolding merge_left_def Let_def by (simp cong: list.case_cong)
qed

lemma merge_left_unique:
  assumes f: "disjoint_labels l r" and d: "distinct (column r key)"
  shows "rows (merge_left l r) =
     map (\<lambda>a. map (\<lambda>c. (c, cell_of a c)) (columns l) @
              (case filter (\<lambda>b. cell_of b key = cell_of a key) (rows r) of
                 [] \<Rightarrow> map (\<lambda>c. (c, Null)) (filter (\<lambda>c. c \<noteq> key) (columns r))
               | m # ms \<Rightarrow> map (\<lambda>c. (c, cell_of m c)) (filter (\<lambda>c. c \<noteq> key) (columns r))))
         (rows l)"
proof -
  have "\<And>a. filter (\<lambda>b. cell_of b key = cell_of a key) (rows r) = []
          \<or> (\<exists>m. filter (\<lambda>b. cell_of b key = cell_of a key) (rows r) = [m])"
    using d filter_unique [of "\<lambda>b. cell_of b key" "rows r"] by (simp add: column_def)
  then have "\<And>a. (case filter (\<lambda>b. cell_of b key = cell_of a key) (rows r) of
                 [] \<Rightarrow> [map (\<lambda>c. (c, cell_of a c)) (columns l)
                         @ map (\<lambda>c. (c, Null)) (filter (\<lambda>c. c \<noteq> key) (columns r))]
               | m # ms \<Rightarrow> map (\<lambda>b. map (\<lambda>c. (c, cell_of a c)) (columns l)
                         @ map (\<lambda>c. (c, cell_of b c)) (filter (\<lambda>c. c \<noteq> key) (columns r)))
                         (m # ms))
           = [map (\<lambda>c. (c, cell_of a c)) (columns l) @
              (case filter (\<lambda>b. cell_of b key = cell_of a key) (rows r) of
                 [] \<Rightarrow> map (\<lambda>c. (c, Null)) (filter (\<lambda>c. c \<noteq> key) (columns r))
               | m # ms \<Rightarrow> map (\<lambda>c. (c, cell_of m c)) (filter (\<lambda>c. c \<noteq> key) (columns r)))]"
    by (metis (no_types, lifting) list.simps(4,5,8,9))
  then show ?thesis
    by (simp add: merge_left_fresh [OF f] concat_map_singleton)
qed

section \<open>Normalising\<close>

lemma bind_e_Inr: "bind_e m f = Inr y \<longleftrightarrow> (\<exists>x. m = Inr x \<and> f x = Inr y)"
  by (cases m) (auto simp: bind_e_def)

lemma map_e_set: "map_e f xs = Inr ys \<Longrightarrow> y \<in> set ys \<Longrightarrow> \<exists>x \<in> set xs. f x = Inr y"
  by (induction xs arbitrary: ys) (auto split: sum.splits)

lemma map_e_length: "map_e f xs = Inr ys \<Longrightarrow> length ys = length xs"
  by (induction xs arbitrary: ys) (auto split: sum.splits)

lemma cell_of_update: "cell_of (AList.update c v r) c' = (if c' = c then v else cell_of r c')"
  by (simp add: cell_of_def update_conv')

lemma cell_of_filter:
  "c \<notin> set cs \<Longrightarrow> cell_of (filter (\<lambda>(c', v). c' \<notin> set cs) r) c = cell_of r c"
  by (induction r) (auto simp: cell_of_def)

lemma convert_row_other:
  "convert_row f cs r = Inr r' \<Longrightarrow> c \<notin> set cs \<Longrightarrow> cell_of r' c = cell_of r c"
  unfolding convert_row_def
  by (induction r arbitrary: r') (auto simp: cell_of_def bind_e_Inr split: sum.splits if_splits)

lemma astype_columns: "astype f cs df = Inr df' \<Longrightarrow> columns df' = columns df"
  by (auto simp: astype_def bind_e_Inr)

lemma astype_other:
  assumes "astype f cs df = Inr df'" and "r' \<in> set (rows df')" and "c \<notin> set cs"
  shows "\<exists>r \<in> set (rows df). cell_of r' c = cell_of r c"
proof -
  from assms(1) obtain rs where rs: "map_e (convert_row f cs) (rows df) = Inr rs" and "df' = df\<lparr>rows := rs\<rparr>"
    by (auto simp: astype_def bind_e_Inr)
  with assms(2) have "r' \<in> set rs" by simp
  from map_e_set [OF rs this] obtain r where "r \<in> set (rows df)" "convert_row f cs r = Inr r'"
    by blast
  with assms(3) show ?thesis by (blast dest: convert_row_other)
qed

lemma assign_e_columns: "assign_e c f df = Inr df' \<Longrightarrow> columns df' = add_column c (columns df)"
  by (auto simp: assign_e_def bind_e_Inr)

lemma assign_e_rows:
  assumes "assign_e c f df = Inr df'" and "r' \<in> set (rows df')"
  shows "\<exists>r \<in> set (rows df). \<exists>v. f r = Inr v \<and> r' = AList.update c v r"
proof -
  from assms(1) obtain rs where
    rs: "map_e (\<lambda>r. bind_e (f r) (\<lambda>v. Inr (AList.update c v r))) (rows df) = Inr rs"
    and "df' = \<lparr>columns = add_column c (columns df), rows = rs\<rparr>"
    by (auto simp: assign_e_def bind_e_Inr)
  with assms(2) have "r' \<in> set rs" by simp
  from map_e_set [OF rs this] show ?thesis by (auto simp: bind_e_Inr)
qed

text \<open>The stages of step 1, when it succeeds.\<close>

lemma step1_stages:
  assumes "step1 raw = Inr out"
  obtains d1 d2 d3 d4 where
    "set_columns kline_names raw = Inr d1"
    "assign_e key (\<lambda>r. to_datetime (cell_of r ''open_time''))
       (dropna ''open_time'' (assign ''open_time'' (\<lambda>r. to_numeric (cell_of r ''open_time'')) d1)) = Inr d2"
    "astype to_float float_cols (drop_columns [''ignore'', ''close_time'', ''open_time''] d2) = Inr d3"
    "astype to_int [''num_trades''] d3 = Inr d4"
    "out = validate_data
       (assign ''taker_sell_quote_vol''
          (\<lambda>r. cell_sub (cell_of r ''quote_volume'') (cell_of r ''taker_buy_quote_vol''))
          (assign ''taker_sell_base_vol''
             (\<lambda>r. cell_sub (cell_of r ''volume'') (cell_of r ''taker_buy_base_vol'')) d4))"
  using assms unfolding step1_def Let_def bind_e_Inr by auto

lemma step1_columns:
  assumes "step1 raw = Inr out"
  shows "columns out = kline_cols"
proof -
  from assms obtain d1 d2 d3 d4 where
    1: "set_columns kline_names raw = Inr d1" and
    2: "assign_e key (\<lambda>r. to_datetime (cell_of r ''open_time''))
       (dropna ''open_time'' (assign ''open_time'' (\<lambda>r. to_numeric (cell_of r ''open_time'')) d1)) = Inr d2" and
    3: "astype to_float float_cols (drop_columns [''ignore'', ''close_time'', ''open_time''] d2) = Inr d3" and
    4: "astype to_int [''num_trades''] d3 = Inr d4" and
    5: "out = validate_data
       (assign ''taker_sell_quote_vol''
          (\<lambda>r. cell_sub (cell_of r ''quote_volume'') (cell_of r ''taker_buy_quote_vol''))
          (assign ''taker_sell_base_vol''
             (\<lambda>r. cell_sub (cell_of r ''volume'') (cell_of r ''taker_buy_base_vol'')) d4))"
    by (rule step1_stages)
  from 1 have c1: "columns d1 = kline_names"
    by (auto simp: set_columns_def split: if_splits)
  have c2: "columns d2 = kline_names @ [key]"
    using assign_e_columns [OF 2] c1
    by (simp add: dropna_def assign_def add_column_def kline_names_def key_def)
  have c3: "columns d3 = [''open'', ''high'', ''low'', ''close'', ''volume'', ''quote_volume'',
      ''num_trades'', ''taker_buy_base_vol'', ''taker_buy_quote_vol'', key]"
    using astype_columns [OF 3] c2 by (simp add: drop_columns_def kline_names_def key_def)
  have c4: "columns d4 = columns d3" using 4 by (rule astype_columns)
  show ?thesis
    unfolding 5 validate_data_columns
    by (simp add: assign_def c4 c3 add_column_def key_def kline_cols_def)
qed

lemma step1_timestamps:
  assumes "step1 raw = Inr out" and "r \<in> set (rows out)"
  shows "\<exists>t. cell_of r key = Time t"
proof -
  from assms(1) obtain d1 d2 d3 d4 where
    2: "assign_e key (\<lambda>r. to_datetime (cell_of r ''open_time''))
       (dropna ''open_time'' (assign ''open_time'' (\<lambda>r. to_numeric (cell_of r ''open_time'')) d1)) = Inr d2" and
    3: "astype to_float float_cols (drop_columns [''ignore'', ''close_time'', ''open_time''] d2) = Inr d3" and
    4: "astype to_int [''num_trades''] d3 = Inr d4" and
    5: "out = validate_data
       (assign ''taker_sell_quote_vol''
          (\<lambda>r. cell_sub (cell_of r ''quote_volume'') (cell_of r ''taker_buy_quote_vol''))
          (assign ''taker_sell_base_vol''
             (\<lambda>r. cell_sub (cell_of r ''volume'') (cell_of r ''taker_buy_base_vol'')) d4))"
    by (rule step1_stages)
  have k2: "\<exists>t. cell_of r2 key = Time t" if "r2 \<in> set (rows d2)" for r2
  proof -
    from assign_e_rows [OF 2 that] obtain r1 v where
      r1: "r1 \<in> set (rows (dropna ''open_time''
             (assign ''open_time'' (\<lambda>r. to_numeric (cell_of r ''open_time'')) d1)))"
      and v: "to_datetime (cell_of r1 ''open_time'') = Inr v" and r2: "r2 = AList.update key v r1"
      by blast
    from r1 obtain r0 where "cell_of r1 ''open_time'' = to_numeric (cell_of r0 ''open_time'')"
      and "cell_of r1 ''open_time'' \<noteq> Null"
      by (auto simp: dropna_def assign_def cell_of_update)
    then obtain x where "cell_of r1 ''open_time'' = Num x"
      by (cases "cell_of r0 ''open_time''") auto
    with v r2 show ?thesis by (auto simp: cell_of_update)
  qed
  have k3: "\<exists>t. cell_of r3 key = Time t" if "r3 \<in> set (rows d3)" for r3
  proof -
    from astype_other [OF 3 that, of key] obtain r2' where
      "r2' \<in> set (rows (drop_columns [''ignore'', ''close_time'', ''open_time''] d2))"
      and e: "cell_of r3 key = cell_of r2' key"
      by (auto simp: float_cols_def key_def)
    then obtain r2 where "r2 \<in> set (rows d2)" and "cell_of r2' key = cell_of r2 key"
      using cell_of_filter [of key "[''ignore'', ''close_time'', ''open_time'']"]
      by (auto simp: drop_columns_def key_def)
    with e k2 show ?thesis by auto
  qed
  have k4: "\<exists>t. cell_of r4 key = Time t" if "r4 \<in> set (rows d4)" for r4
    using astype_other [OF 4 that, of key] k3 by (auto simp: key_def)
  from assms(2) have "r \<in> set (rows (assign ''taker_sell_quote_vol''
          (\<lambda>r. cell_sub (cell_of r ''quote_volume'') (cell_of r ''taker_buy_quote_vol''))
          (assign ''taker_sell_base_vol''
             (\<lambda>r. cell_sub (cell_of r ''volume'') (cell_of r ''taker_buy_base_vol'')) d4)))"
    unfolding 5 using validate_data_subset by blast
  then obtain r4 where "r4 \<in> set (rows d4)" and "cell_of r key = cell_of r4 key"
    by (auto simp: assign_def cell_of_update key_def)
  with k4 show ?thesis by auto
qed

lemma step1_sell:
  assumes "step1 raw = Inr out" and "r \<in> set (rows out)"
  shows "cell_of r ''taker_sell_base_vol''
           = cell_sub (cell_of r ''volume'') (cell_of r ''taker_buy_base_vol'')
       \<and> cell_of r ''taker_sell_quote_vol''
           = cell_sub (cell_of r ''quote_volume'') (cell_of r ''taker_buy_quote_vol'')"
proof -
  from assms(1) obtain d4 where
    5: "out = validate_data
       (assign ''taker_sell_quote_vol''
          (\<lambda>r. cell_sub (cell_of r ''quote_volume'') (cell_of r ''taker_buy_quote_vol''))
          (assign ''taker_sell_base_vol''
             (\<lambda>r. cell_sub (cell_of r ''volume'') (cell_of r ''taker_buy_base_vol'')) d4))"
    by (rule step1_stages)
  from assms(2) have "r \<in> set (rows (assign ''taker_sell_quote_vol''
          (\<lambda>r. cell_sub (cell_of r ''quote_volume'') (cell_of r ''taker_buy_quote_vol''))
          (assign ''taker_sell_base_vol''
             (\<lambda>r. cell_sub (cell_of r ''volume'') (cell_of r ''taker_buy_base_vol'')) d4)))"
    unfolding 5 using validate_data_subset by blast
  then show ?thesis
    by (auto simp: assign_def cell_of_update)
qed

section \<open>Rows and cells of a join\<close>

lemma ffill_length: "length (ffill prev xs) = length xs"
  by (induction xs arbitrary: prev) auto

lemma ffill_column_length: "length (rows (ffill_column c df)) = length (rows df)"
  by (simp add: ffill_column_def set_column_def ffill_length column_def)

lemma ffill_column_other:
  "i < length (rows df) \<Longrightarrow> c' \<noteq> c \<Longrightarrow>
   cell_of (rows (ffill_column c df) ! i) c' = cell_of (rows df ! i) c'"
  by (simp add: ffill_column_def set_column_def ffill_length column_def cell_of_update)

lemma ffill_column_columns: "columns (ffill_column c df) = add_column c (columns df)"
  by (simp add: ffill_column_def set_column_def)

lemma merge_left_columns:
  "disjoint_labels l r \<Longrightarrow> columns (merge_left l r) = columns l @ filter (\<lambda>c. c \<noteq> key) (columns r)"
  by (simp add: merge_left_fresh)

lemma merge_left_length:
  "disjoint_labels l r \<Longrightarrow> distinct (column r key) \<Longrightarrow>
   length (rows (merge_left l r)) = length (rows l)"
  by (simp add: merge_left_unique)

lemma merge_left_cells:
  "disjoint_labels l r \<Longrightarrow> distinct (column r key) \<Longrightarrow> i < length (rows l) \<Longrightarrow>
   c \<in> set (columns l) \<Longrightarrow> cell_of (rows (merge_left l r) ! i) c = cell_of (rows l ! i) c"
  by (simp add: merge_left_unique cell_of_labelled')

section \<open>Taker volumes\<close>

text \<open>
  C7, as amended. In every row of the normalised klines table in which the volume and the
  taker-buy volume are numbers, taker-buy plus taker-sell volume is the volume, exactly;
  the same holds of the quote volumes.
\<close>

theorem taker_volumes_add_up:
  assumes "step1 raw = Inr df" and "r \<in> set (rows df)"
  shows "(cell_of r ''volume'' = Num v \<and> cell_of r ''taker_buy_base_vol'' = Num b \<longrightarrow>
            cell_add (cell_of r ''taker_buy_base_vol'') (cell_of r ''taker_sell_base_vol'')
              = cell_of r ''volume'')
       \<and> (cell_of r ''quote_volume'' = Num q \<and> cell_of r ''taker_buy_quote_vol'' = Num p \<longrightarrow>
            cell_add (cell_of r ''taker_buy_quote_vol'') (cell_of r ''taker_sell_quote_vol'')
              = cell_of r ''quote_volume'')"
  using step1_sell [OF assms] by auto

theorem taker_volumes_add_up_witness:
  "step1 (raw_table [kline 0]) = Inr \<lparr>columns = kline_cols, rows = [bar0]\<rparr>
   \<and> cell_of bar0 ''volume'' = Num 5 \<and> cell_of bar0 ''taker_buy_base_vol'' = Num 2
   \<and> cell_add (cell_of bar0 ''taker_buy_base_vol'') (cell_of bar0 ''taker_sell_base_vol'')
       = cell_of bar0 ''volume''
   \<and> cell_of bar0 ''quote_volume'' = Num 55 \<and> cell_of bar0 ''taker_buy_quote_vol'' = Num 22
   \<and> cell_add (cell_of bar0 ''taker_buy_quote_vol'') (cell_of bar0 ''taker_sell_quote_vol'')
       = cell_of bar0 ''quote_volume''"
proof -
  have e: "step1 (raw_table [kline 0]) = Inr \<lparr>columns = kline_cols, rows = [bar0]\<rparr>"
    by code_simp
  have c: "cell_of bar0 ''volume'' = Num 5" "cell_of bar0 ''taker_buy_base_vol'' = Num 2"
    "cell_of bar0 ''quote_volume'' = Num 55" "cell_of bar0 ''taker_buy_quote_vol'' = Num 22"
    by code_simp+
  from taker_volumes_add_up [OF e, of bar0 5 2 55 22] c e show ?thesis by simp
qed

text \<open>
  C7 as stated fails on a bar whose taker-buy base volume is missing: its taker-sell
  volume is null, and so is the sum, while the volume is 5.
\<close>

theorem taker_volumes_null:
  "map_sum id (\<lambda>df. map (\<lambda>r. (cell_add (cell_of r ''taker_buy_base_vol'')
                                       (cell_of r ''taker_sell_base_vol''),
                              cell_of r ''volume'')) (rows df))
     (step1 (raw_table [kline_no_buy])) = Inr [(Null, Num 5)]"
  by code_simp


section \<open>Timestamps of the merged table\<close>

lemma suffix_not_key: "c @ ''_x'' \<noteq> key"
proof
  assume "c @ ''_x'' = key"
  then have "last (c @ ''_x'') = last key" by simp
  then show False by (simp add: key_def)
qed

lemma cell_of_relabelled:
  "k \<in> set cols \<Longrightarrow> \<forall>c \<in> set cols. g c = k \<longrightarrow> c = k \<Longrightarrow> g k = k \<Longrightarrow>
   cell_of (map (\<lambda>c. (g c, f c)) cols @ rest) k = f k"
  by (induction cols) (auto simp: cell_of_def)

lemma joined_row:
  "r' \<in> set (case xs of [] \<Rightarrow> [p @ n] | m # ms \<Rightarrow> map (\<lambda>b. p @ q b) (m # ms)) \<Longrightarrow>
   \<exists>rest. r' = p @ rest"
  by (cases xs) auto

lemma merge_left_key:
  assumes k: "key \<in> set (columns l)" and r: "r' \<in> set (rows (merge_left l r))"
  shows "\<exists>a \<in> set (rows l). cell_of r' key = cell_of a key"
proof -
  let ?both = "filter (\<lambda>c. c \<noteq> key \<and> c \<in> set (columns r)) (columns l)"
  let ?g = "\<lambda>c. if c \<in> set ?both then c @ ''_x'' else c"
  from r obtain a where a: "a \<in> set (rows l)" and
    "r' \<in> set (case filter (\<lambda>b. cell_of b key = cell_of a key) (rows r) of
        [] \<Rightarrow> [map (\<lambda>c. (?g c, cell_of a c)) (columns l)
              @ map (\<lambda>c. (if c \<in> set ?both then c @ ''_y'' else c, Null))
                  (filter (\<lambda>c. c \<noteq> key) (columns r))]
      | m # ms \<Rightarrow> map (\<lambda>b. map (\<lambda>c. (?g c, cell_of a c)) (columns l)
              @ map (\<lambda>c. (if c \<in> set ?both then c @ ''_y'' else c, cell_of b c))
                  (filter (\<lambda>c. c \<noteq> key) (columns r))) (m # ms))"
    unfolding merge_left_def Let_def by auto
  from joined_row [OF this(2)] obtain rest where
    r': "r' = map (\<lambda>c. (?g c, cell_of a c)) (columns l) @ rest" by blast
  have "cell_of r' key = cell_of a key"
    unfolding r' using k by (intro cell_of_relabelled) (auto simp: suffix_not_key)
  with a show ?thesis by blast
qed

lemma merge_left_has_key: "key \<in> set (columns l) \<Longrightarrow> key \<in> set (columns (merge_left l r))"
  unfolding merge_left_def Let_def by (auto simp: image_iff intro!: bexI [of _ key])

lemma ffill_column_key:
  assumes "r' \<in> set (rows (ffill_column c df))" and "c \<noteq> key"
  shows "\<exists>r \<in> set (rows df). cell_of r' key = cell_of r key"
proof -
  from assms(1) obtain r v where "r \<in> set (rows df)" and "r' = AList.update c v r"
    by (auto simp: ffill_column_def set_column_def dest: set_zip_leftD)
  with assms(2) show ?thesis by (auto simp: cell_of_update)
qed

lemma ffill_column_has_key: "key \<in> set (columns df) \<Longrightarrow> key \<in> set (columns (ffill_column c df))"
  by (simp add: ffill_column_columns add_column_def)

lemma timed_merge_left: "timed l \<Longrightarrow> timed (merge_left l r)"
  unfolding timed_def using merge_left_key [of l _ r] merge_left_has_key [of l r] by metis

lemma timed_ffill: "timed df \<Longrightarrow> c \<noteq> key \<Longrightarrow> timed (ffill_column c df)"
  unfolding timed_def using ffill_column_key [of _ c df] ffill_column_has_key [of df c] by metis

lemma timed_step6: "timed df \<Longrightarrow> timed (step6 df mark index funding df_oi)"
proof -
  have fr: "''fundingRate'' \<noteq> key" by (simp add: key_def)
  assume "timed df"
  then show ?thesis
    unfolding step6_def Let_def
    by (auto intro!: timed_merge_left timed_ffill fr split: option.splits)
qed

lemma timed_step1: "step1 raw = Inr df \<Longrightarrow> timed df"
  unfolding timed_def using step1_columns [of raw df] step1_timestamps [of raw df]
  by (auto simp: kline_cols_def key_def)

lemma sort_rank_Time: "sort_rank (Time t) = (0, t)"
  by (simp add: sort_rank_def)

lemma sorted_tagged: "sorted (map (\<lambda>t. (0::nat, t)) ts) \<Longrightarrow> sorted (ts :: rat list)"
  by (induction ts) (auto simp: less_eq_prod_def)

lemma timed_step7:
  assumes "timed full"
  shows "\<exists>ts. column (step7 full) key = map Time ts \<and> sorted_wrt (<) ts"
proof -
  let ?sorted = "sort_values key full"
  let ?out = "step7 full"
  define tt where "tt = (\<lambda>c. case c of Time t \<Rightarrow> t | _ \<Rightarrow> (0::rat))"
  have sub: "set (rows ?out) \<subseteq> set (rows full)"
    using drop_duplicates_subset [of key ?sorted] by (simp add: step7_def sort_values_def)
  with assms have T: "\<forall>r \<in> set (rows ?out). \<exists>t. cell_of r key = Time t"
    by (auto simp: timed_def)
  have d: "distinct (column ?out key)"
    unfolding step7_def by (rule drop_duplicates_distinct)
  have "sorted (map (\<lambda>r. sort_rank (cell_of r key)) (rows ?sorted))"
    by (simp add: sort_values_def)
  then have s: "sorted (map (\<lambda>r. sort_rank (cell_of r key)) (rows ?out))"
    unfolding step7_def drop_duplicates_def column_def using kept_sorted by simp
  let ?ts = "map tt (column ?out key)"
  have eq: "column ?out key = map Time ?ts"
    using T by (auto simp: column_def tt_def)
  have "map (\<lambda>r. sort_rank (cell_of r key)) (rows ?out) = map (\<lambda>t. (0::nat, t)) ?ts"
    using T by (auto simp: column_def tt_def sort_rank_Time)
  with s have "sorted (map (\<lambda>t. (0::nat, t)) ?ts)" by simp
  then have "sorted ?ts" by (rule sorted_tagged)
  moreover from d eq have "distinct ?ts"
    by (metis distinct_map)
  ultimately have "sorted_wrt (<) ?ts"
    by (simp add: strict_sorted_iff)
  with eq show ?thesis by blast
qed

lemma pipeline_Inr:
  "pipeline klines mark_raw index_raw funding_raw oi_data = Inr full \<longleftrightarrow>
     (\<exists>raw df mark index funding.
        klines = Some raw \<and> step1 raw = Inr df \<and> opt_e step2 mark_raw = Inr mark
        \<and> opt_e step3 index_raw = Inr index \<and> opt_e step4 funding_raw = Inr funding
        \<and> full = step7 (step6 df mark index funding (step5 oi_data)))"
  by (cases klines) (auto simp: pipeline_def bind_e_Inr)

text \<open>
  C1. In the table that step 7 saves, the cells of \<^verbatim>\<open>timestamp_utc\<close> are instants that
  increase strictly from each row to the next: they are sorted and no two are equal.
\<close>

theorem pipeline_timestamps_increase:
  assumes "pipeline klines mark_raw index_raw funding_raw oi_data = Inr full"
  shows "\<exists>ts. column full key = map Time ts \<and> sorted_wrt (<) ts"
proof -
  from assms obtain raw df mark index funding where
    "step1 raw = Inr df" and "full = step7 (step6 df mark index funding (step5 oi_data))"
    unfolding pipeline_Inr by blast
  then show ?thesis
    using timed_step7 [OF timed_step6 [OF timed_step1]] by simp
qed

lemma pipeline_klines3: "pipeline (Some klines3) None None (Some funding2) [] = Inr saved3"
  by code_simp

theorem pipeline_timestamps_increase_witness:
  "pipeline (Some klines3) None None (Some funding2) [] = Inr saved3
     \<and> (\<exists>ts. column saved3 key = map Time ts \<and> sorted_wrt (<) ts)"
  using pipeline_timestamps_increase [OF pipeline_klines3] pipeline_klines3 by simp

text \<open>
  C3, what the script does. The archives of minute 1 and minute 2 complete before that of
  minute 0, and funding was settled at minute 0 (rate 1) and at minute 2 (rate 3). The
  fill runs over the rows as they were downloaded, before step 7 sorts them: in the saved
  table the row of minute 1 has no funding rate, although the event of minute 0 precedes
  it.
\<close>

theorem ffill_before_sort:
  "pipeline (Some klines3) None None (Some funding2) [] = Inr saved3
   \<and> column saved3 key = [Time 0, Time 60000, Time 120000]
   \<and> column saved3 ''fundingRate'' = [Num 1, Null, Num 3]"
  using pipeline_klines3 by (simp add: saved3_def column_def bar_def cell_of_def key_def)

section \<open>Labels of the tables\<close>

lemma step6_stages:
  "step6 df mark index funding df_oi =
     (case df_oi of
        None \<Rightarrow> after_funding df mark index funding
      | Some oi \<Rightarrow> merge_left (after_funding df mark index funding) oi)"
  by (simp add: step6_def after_funding_def after_index_def after_mark_def Let_def
      split: option.splits)

lemma opt_e_Inr:
  "opt_e f x = Inr y \<longleftrightarrow> (x = None \<and> y = None) \<or> (\<exists>a b. x = Some a \<and> f a = Inr b \<and> y = Some b)"
  by (cases x) (auto simp: opt_e_def bind_e_Inr)

lemma price_klines_columns:
  assumes "price_klines names cols raw = Inr out"
  shows "columns out = key # cols"
proof -
  from assms obtain d1 d2 d3 where s: "select_columns (key # cols) d1 = Inr d2"
    and a: "astype to_float cols d2 = Inr d3" and o: "out = validate_data d3"
    unfolding price_klines_def Let_def bind_e_Inr by auto
  from s have "columns d2 = key # cols" by (auto simp: select_columns_def split: if_splits)
  with astype_columns [OF a] o show ?thesis by (simp add: validate_data_columns)
qed

lemma price_klines_distinct:
  assumes "price_klines names cols raw = Inr out"
  shows "distinct (column out key)"
proof -
  from assms obtain d3 where o: "out = validate_data d3"
    unfolding price_klines_def Let_def bind_e_Inr by auto
  from price_klines_columns [OF assms] o have "key \<in> set (columns d3)"
    by (simp add: validate_data_columns)
  then show ?thesis unfolding o by (rule validate_data_distinct)
qed

lemma step4_columns:
  assumes "step4 funding = Inr out"
  shows "columns out = [key, ''fundingRate'']"
proof -
  from assms obtain d1 where s: "select_columns [''fundingTime'', ''fundingRate''] funding = Inr d1"
    and a: "astype to_float [''fundingRate''] (rename_column ''fundingTime'' key d1) = Inr out"
    unfolding step4_def bind_e_Inr by auto
  from s have "columns d1 = [''fundingTime'', ''fundingRate'']"
    by (auto simp: select_columns_def split: if_splits)
  with astype_columns [OF a] show ?thesis by (simp add: rename_column_def)
qed

lemma step5_columns: "step5 oi_data = Some oi \<Longrightarrow> columns oi = [key, ''open_interest'']"
  by (auto simp: step5_def split: if_splits)

lemma disjoint_labels_lists:
  "columns l = ls \<Longrightarrow> columns r = key # rs \<Longrightarrow> \<forall>c \<in> set ls. c \<notin> set rs \<Longrightarrow> disjoint_labels l r"
  by (auto simp: disjoint_labels_def)

lemma merge_left_kept:
  "disjoint_labels l r \<Longrightarrow> distinct (column r key) \<Longrightarrow> kept l (merge_left l r)"
  by (simp add: kept_def list_all2_conv_all_nth merge_left_length merge_left_cells)

lemma ffill_column_kept:
  "kept l out \<Longrightarrow> c \<notin> set (columns l) \<Longrightarrow> kept l (ffill_column c out)"
proof -
  assume k: "kept l out" and c: "c \<notin> set (columns l)"
  have "cell_of (rows (ffill_column c out) ! i) c' = cell_of (rows l ! i) c'"
    if "i < length (rows l)" and "c' \<in> set (columns l)" for i c'
  proof -
    from that c have "c' \<noteq> c" by blast
    moreover from k that have "i < length (rows out)"
      and "cell_of (rows out ! i) c' = cell_of (rows l ! i) c'"
      by (simp_all add: kept_def list_all2_conv_all_nth)
    ultimately show ?thesis by (simp add: ffill_column_other)
  qed
  moreover from k have "length (rows l) = length (rows out)"
    by (simp add: kept_def list_all2_conv_all_nth)
  ultimately show ?thesis
    by (simp add: kept_def list_all2_conv_all_nth ffill_column_length)
qed

lemma step5_distinct_labels: "key \<noteq> ''open_interest''" "key \<noteq> ''fundingRate''"
  by (simp_all add: key_def)

text \<open>The labels after each join of step 6, and that each join renames nothing.\<close>

lemma step6_labels:
  assumes df: "columns df = kline_cols"
    and mark: "\<forall>m. mark = Some m \<longrightarrow> columns m = key # mark_cols"
    and index: "\<forall>i. index = Some i \<longrightarrow> columns i = key # index_cols"
    and funding: "\<forall>f. funding = Some f \<longrightarrow> columns f = [key, ''fundingRate'']"
  shows "columns (after_mark df mark) = kline_cols @ (if mark = None then [] else mark_cols)"
    and "columns (after_index df mark index)
           = kline_cols @ (if mark = None then [] else mark_cols)
               @ (if index = None then [] else index_cols)"
    and "columns (after_funding df mark index funding)
           = kline_cols @ (if mark = None then [] else mark_cols)
               @ (if index = None then [] else index_cols)
               @ (if funding = None then [] else [''fundingRate''])"
    and "mark = Some m \<Longrightarrow> disjoint_labels df m"
    and "index = Some i \<Longrightarrow> disjoint_labels (after_mark df mark) i"
    and "funding = Some f \<Longrightarrow> disjoint_labels (after_index df mark index) f"
    and "columns oi = [key, ''open_interest''] \<Longrightarrow>
         disjoint_labels (after_funding df mark index funding) oi"
proof -
  show dm: "disjoint_labels df m" if "mark = Some m" for m
    using that mark df
    by (intro disjoint_labels_lists [of _ kline_cols _ mark_cols])
       (auto simp: kline_cols_def mark_cols_def)
  show cm: "columns (after_mark df mark) = kline_cols @ (if mark = None then [] else mark_cols)"
  proof (cases mark)
    case None
    then show ?thesis by (simp add: after_mark_def df)
  next
    case (Some m)
    with merge_left_columns [OF dm [OF Some]] mark df show ?thesis
      by (simp add: after_mark_def key_def mark_cols_def)
  qed
  show di: "disjoint_labels (after_mark df mark) i" if "index = Some i" for i
    using that index cm
    by (intro disjoint_labels_lists [of _ "columns (after_mark df mark)" _ index_cols])
       (auto simp: kline_cols_def mark_cols_def index_cols_def)
  show ci: "columns (after_index df mark index)
           = kline_cols @ (if mark = None then [] else mark_cols)
               @ (if index = None then [] else index_cols)"
  proof (cases index)
    case None
    then show ?thesis by (simp add: after_index_def cm)
  next
    case (Some i)
    with merge_left_columns [OF di [OF Some]] index cm show ?thesis
      by (simp add: after_index_def key_def index_cols_def)
  qed
  show dfu: "disjoint_labels (after_index df mark index) f" if "funding = Some f" for f
    using that funding ci
    by (intro disjoint_labels_lists [of _ "columns (after_index df mark index)" _ "[''fundingRate'']"])
       (auto simp: kline_cols_def mark_cols_def index_cols_def)
  show cf: "columns (after_funding df mark index funding)
           = kline_cols @ (if mark = None then [] else mark_cols)
               @ (if index = None then [] else index_cols)
               @ (if funding = None then [] else [''fundingRate''])"
  proof (cases funding)
    case None
    then show ?thesis by (simp add: after_funding_def ci)
  next
    case (Some f)
    with merge_left_columns [OF dfu [OF Some]] funding ci show ?thesis
      by (simp add: after_funding_def ffill_column_columns add_column_def key_def)
  qed
  show "disjoint_labels (after_funding df mark index funding) oi"
    if "columns oi = [key, ''open_interest'']"
    using that cf
    by (intro disjoint_labels_lists
          [of _ "columns (after_funding df mark index funding)" _ "[''open_interest'']"])
       (auto simp: kline_cols_def mark_cols_def index_cols_def)
qed

lemma normalised_labels:
  assumes "opt_e step2 mark_raw = Inr mark" and "opt_e step3 index_raw = Inr index"
    and "opt_e step4 funding_raw = Inr funding"
  shows "\<forall>m. mark = Some m \<longrightarrow> columns m = key # mark_cols \<and> distinct (column m key)"
    and "\<forall>i. index = Some i \<longrightarrow> columns i = key # index_cols \<and> distinct (column i key)"
    and "\<forall>f. funding = Some f \<longrightarrow> columns f = [key, ''fundingRate'']"
  using assms
  by (auto simp: opt_e_Inr step2_def step3_def
      dest: price_klines_columns price_klines_distinct step4_columns)

section \<open>Frame of the joins\<close>

lemma kept_rows:
  "kept l out \<longleftrightarrow>
     length (rows out) = length (rows l)
   \<and> (\<forall>i < length (rows l). \<forall>c \<in> set (columns l).
         cell_of (rows out ! i) c = cell_of (rows l ! i) c)"
  by (auto simp: kept_def list_all2_conv_all_nth)

text \<open>
  C10. Take the normalised tables of a run: \<open>df\<close> from step 1, \<open>mark\<close>, \<open>index\<close> and
  \<open>funding\<close> from steps 2 to 4 where there is data, the open-interest table of step 5. At
  each join of step 6 that takes place, the accumulated table and the secondary share no
  label but the key, and, when the timestamps of the secondary are unique (those of the
  mark and of the index table always are: the validator has removed the duplicates), the
  table after the join keeps the table before it (\<open>kept\<close>: as many rows, and in every row
  the cell under every label of the table before is unchanged), and its labels are those
  of the table before followed by those of the secondary. The forward fill that follows
  the funding join is part of that step.
\<close>

theorem script_joins_keep_frame:
  assumes "step1 raw = Inr df"
    and "opt_e step2 mark_raw = Inr mark"
    and "opt_e step3 index_raw = Inr index"
    and "opt_e step4 funding_raw = Inr funding"
  shows "(\<forall>m. mark = Some m \<longrightarrow>
            disjoint_labels df m
          \<and> kept df (after_mark df mark)
          \<and> columns (after_mark df mark) = columns df @ mark_cols)
       \<and> (\<forall>i. index = Some i \<longrightarrow>
            disjoint_labels (after_mark df mark) i
          \<and> kept (after_mark df mark) (after_index df mark index)
          \<and> columns (after_index df mark index) = columns (after_mark df mark) @ index_cols)
       \<and> (\<forall>f. funding = Some f \<longrightarrow>
            disjoint_labels (after_index df mark index) f
          \<and> (distinct (column f key) \<longrightarrow>
               kept (after_index df mark index) (after_funding df mark index funding)
             \<and> columns (after_funding df mark index funding)
                 = columns (after_index df mark index) @ [''fundingRate'']))
       \<and> (\<forall>oi. step5 oi_data = Some oi \<longrightarrow>
            disjoint_labels (after_funding df mark index funding) oi
          \<and> (distinct (column oi key) \<longrightarrow>
               kept (after_funding df mark index funding)
                 (step6 df mark index funding (step5 oi_data))
             \<and> columns (step6 df mark index funding (step5 oi_data))
                 = columns (after_funding df mark index funding) @ [''open_interest'']))"
proof -
  note n = normalised_labels [OF assms(2-4)]
  have df: "columns df = kline_cols" using assms(1) by (rule step1_columns)
  from n have lm: "\<forall>m. mark = Some m \<longrightarrow> columns m = key # mark_cols"
    and li: "\<forall>i. index = Some i \<longrightarrow> columns i = key # index_cols"
    and lf: "\<forall>f. funding = Some f \<longrightarrow> columns f = [key, ''fundingRate'']"
    by blast+
  note l = step6_labels [OF df lm li lf]
  have 1: "disjoint_labels df m \<and> kept df (after_mark df mark)
          \<and> columns (after_mark df mark) = columns df @ mark_cols" if "mark = Some m" for m
    using that l(4) [OF that] n(1) l(1)
    by (simp add: after_mark_def merge_left_kept df)
  have 2: "disjoint_labels (after_mark df mark) i
          \<and> kept (after_mark df mark) (after_index df mark index)
          \<and> columns (after_index df mark index) = columns (after_mark df mark) @ index_cols"
    if "index = Some i" for i
    using that l(5) [OF that] n(2) l(1,2)
    by (simp add: after_index_def merge_left_kept)
  have 3: "disjoint_labels (after_index df mark index) f
          \<and> (distinct (column f key) \<longrightarrow>
               kept (after_index df mark index) (after_funding df mark index funding)
             \<and> columns (after_funding df mark index funding)
                 = columns (after_index df mark index) @ [''fundingRate''])"
    if "funding = Some f" for f
  proof -
    have "''fundingRate'' \<notin> set (columns (after_index df mark index))"
      unfolding l(2) by (simp add: kline_cols_def mark_cols_def index_cols_def)
    then show ?thesis
      using that l(6) [OF that] l(2,3)
      by (simp add: after_funding_def merge_left_kept ffill_column_kept)
  qed
  have 4: "disjoint_labels (after_funding df mark index funding) oi
          \<and> (distinct (column oi key) \<longrightarrow>
               kept (after_funding df mark index funding)
                 (step6 df mark index funding (step5 oi_data))
             \<and> columns (step6 df mark index funding (step5 oi_data))
                 = columns (after_funding df mark index funding) @ [''open_interest''])"
    if "step5 oi_data = Some oi" for oi
  proof -
    have c: "columns oi = [key, ''open_interest'']" using that by (rule step5_columns)
    from l(7) [OF c] have d: "disjoint_labels (after_funding df mark index funding) oi" .
    with merge_left_columns [OF d] c that show ?thesis
      by (simp add: step6_stages merge_left_kept step5_distinct_labels key_def)
  qed
  from 1 2 3 4 show ?thesis by blast
qed

theorem script_joins_keep_frame_witness:
  "\<exists>df mark index.
     step1 klines3 = Inr df \<and> opt_e step2 (Some mark1) = Inr (Some mark)
   \<and> opt_e step3 (Some mark1) = Inr (Some index)
   \<and> opt_e step4 (Some funding2) = Inr (Some funding2n)
   \<and> step5 [snap 0] = Some oi0
   \<and> distinct (column funding2n key) \<and> distinct (column oi0 key)
   \<and> kept df (after_mark df (Some mark))
   \<and> columns (after_mark df (Some mark)) = columns df @ mark_cols
   \<and> kept (after_mark df (Some mark)) (after_index df (Some mark) (Some index))
   \<and> columns (after_index df (Some mark) (Some index))
       = columns (after_mark df (Some mark)) @ index_cols
   \<and> kept (after_index df (Some mark) (Some index))
        (after_funding df (Some mark) (Some index) (Some funding2n))
   \<and> columns (after_funding df (Some mark) (Some index) (Some funding2n))
       = columns (after_index df (Some mark) (Some index)) @ [''fundingRate'']
   \<and> kept (after_funding df (Some mark) (Some index) (Some funding2n))
        (step6 df (Some mark) (Some index) (Some funding2n) (step5 [snap 0]))
   \<and> columns (step6 df (Some mark) (Some index) (Some funding2n) (step5 [snap 0]))
       = columns (after_funding df (Some mark) (Some index) (Some funding2n))
           @ [''open_interest'']"
proof -
  have "\<not> isl (step1 klines3)" by code_simp
  then obtain df where 1: "step1 klines3 = Inr df" by (cases "step1 klines3") auto
  have "\<not> isl (step2 mark1)" by code_simp
  then obtain mark where "step2 mark1 = Inr mark" by (cases "step2 mark1") auto
  then have 2: "opt_e step2 (Some mark1) = Inr (Some mark)" by (simp add: opt_e_Inr)
  have "\<not> isl (step3 mark1)" by code_simp
  then obtain index where "step3 mark1 = Inr index" by (cases "step3 mark1") auto
  then have 3: "opt_e step3 (Some mark1) = Inr (Some index)" by (simp add: opt_e_Inr)
  have 4: "opt_e step4 (Some funding2) = Inr (Some funding2n)" by code_simp
  have 5: "step5 [snap 0] = Some oi0" by code_simp
  have d: "distinct (column funding2n key)" "distinct (column oi0 key)" by code_simp+
  from script_joins_keep_frame [OF 1 2 3 4, of "[snap 0]"] 1 2 3 4 5 d show ?thesis
    by (intro exI [of _ df] exI [of _ mark] exI [of _ index]) simp
qed

section \<open>An absent series\<close>

lemma pipeline_labels:
  assumes "pipeline klines mark_raw index_raw funding_raw oi_data = Inr full"
  shows "columns full =
           kline_cols @ (if mark_raw = None then [] else mark_cols)
             @ (if index_raw = None then [] else index_cols)
             @ (if funding_raw = None then [] else [''fundingRate''])
             @ (if oi_data = [] then [] else [''open_interest''])"
proof -
  from assms obtain raw df mark index funding where
    1: "step1 raw = Inr df" and 2: "opt_e step2 mark_raw = Inr mark"
    and 3: "opt_e step3 index_raw = Inr index" and 4: "opt_e step4 funding_raw = Inr funding"
    and full: "full = step7 (step6 df mark index funding (step5 oi_data))"
    unfolding pipeline_Inr by blast
  note n = normalised_labels [OF 2 3 4]
  have df: "columns df = kline_cols" using 1 by (rule step1_columns)
  from n have lm: "\<forall>m. mark = Some m \<longrightarrow> columns m = key # mark_cols"
    and li: "\<forall>i. index = Some i \<longrightarrow> columns i = key # index_cols"
    and lf: "\<forall>f. funding = Some f \<longrightarrow> columns f = [key, ''fundingRate'']"
    by blast+
  note l = step6_labels [OF df lm li lf]
  have e: "(mark = None) = (mark_raw = None)" "(index = None) = (index_raw = None)"
    "(funding = None) = (funding_raw = None)"
    using 2 3 4 by (auto simp: opt_e_Inr)
  have "columns (step6 df mark index funding (step5 oi_data))
          = columns (after_funding df mark index funding)
              @ (if oi_data = [] then [] else [''open_interest''])"
  proof (cases "step5 oi_data")
    case None
    then show ?thesis by (auto simp: step6_stages step5_def split: if_splits)
  next
    case (Some oi)
    then have c: "columns oi = [key, ''open_interest'']" by (rule step5_columns)
    from Some have "oi_data \<noteq> []" by (auto simp: step5_def)
    with merge_left_columns [OF l(7) [OF c]] c Some show ?thesis
      by (simp add: step6_stages key_def)
  qed
  then show ?thesis
    unfolding full by (simp add: step7_def drop_duplicates_columns sort_values_def l(3) e)
qed

text \<open>
  C2, as amended. When a secondary series is absent its join is skipped: the saved table
  has the labels of the klines table and, in this order, those of the mark, index,
  funding and open-interest series that are present, and none of an absent one. And a run
  that completes with a series completes without it.
\<close>

theorem absent_series_has_no_columns:
  assumes "pipeline klines mark_raw index_raw funding_raw oi_data = Inr full"
  shows "columns full =
           kline_cols @ (if mark_raw = None then [] else mark_cols)
             @ (if index_raw = None then [] else index_cols)
             @ (if funding_raw = None then [] else [''fundingRate''])
             @ (if oi_data = [] then [] else [''open_interest''])
       \<and> (mark_raw = None \<longrightarrow> set mark_cols \<inter> set (columns full) = {})
       \<and> (index_raw = None \<longrightarrow> set index_cols \<inter> set (columns full) = {})
       \<and> (funding_raw = None \<longrightarrow> ''fundingRate'' \<notin> set (columns full))
       \<and> (oi_data = [] \<longrightarrow> ''open_interest'' \<notin> set (columns full))
       \<and> (\<exists>t. pipeline klines None index_raw funding_raw oi_data = Inr t)
       \<and> (\<exists>t. pipeline klines mark_raw None funding_raw oi_data = Inr t)
       \<and> (\<exists>t. pipeline klines mark_raw index_raw None oi_data = Inr t)
       \<and> (\<exists>t. pipeline klines mark_raw index_raw funding_raw [] = Inr t)"
proof -
  note c = pipeline_labels [OF assms]
  have "set mark_cols \<inter> set (columns full) = {}" if "mark_raw = None"
    unfolding c using that by (auto simp: kline_cols_def mark_cols_def index_cols_def)
  moreover have "set index_cols \<inter> set (columns full) = {}" if "index_raw = None"
    unfolding c using that by (auto simp: kline_cols_def mark_cols_def index_cols_def)
  moreover have "''fundingRate'' \<notin> set (columns full)" if "funding_raw = None"
    unfolding c using that by (auto simp: kline_cols_def mark_cols_def index_cols_def)
  moreover have "''open_interest'' \<notin> set (columns full)" if "oi_data = []"
    unfolding c using that by (auto simp: kline_cols_def mark_cols_def index_cols_def)
  moreover from assms have "\<exists>t. pipeline klines None index_raw funding_raw oi_data = Inr t"
    "\<exists>t. pipeline klines mark_raw None funding_raw oi_data = Inr t"
    "\<exists>t. pipeline klines mark_raw index_raw None oi_data = Inr t"
    "\<exists>t. pipeline klines mark_raw index_raw funding_raw [] = Inr t"
    unfolding pipeline_Inr by (auto simp: opt_e_Inr)
  ultimately show ?thesis using c by blast
qed

theorem absent_series_has_no_columns_witness:
  "pipeline (Some klines3) None None (Some funding2) [] = Inr saved3
   \<and> columns saved3 = kline_cols @ [''fundingRate'']
   \<and> set mark_cols \<inter> set (columns saved3) = {}
   \<and> set index_cols \<inter> set (columns saved3) = {}
   \<and> ''open_interest'' \<notin> set (columns saved3)
   \<and> (\<exists>t. pipeline (Some klines3) None None None [] = Inr t)"
  using absent_series_has_no_columns [OF pipeline_klines3] pipeline_klines3
  by (simp add: kline_cols_def mark_cols_def index_cols_def)

text \<open>
  C2 as stated fails: in the run of \<open>klines3\<close> with its funding table and no mark data,
  the saved table has thirteen columns and none of them is a mark column; there is no
  all-null \<^verbatim>\<open>mark_open\<close>.
\<close>

theorem absent_mark_not_null_columns:
  "pipeline (Some klines3) None None (Some funding2) [] = Inr saved3
   \<and> columns saved3 = [''open'', ''high'', ''low'', ''close'', ''volume'', ''quote_volume'',
        ''num_trades'', ''taker_buy_base_vol'', ''taker_buy_quote_vol'', ''timestamp_utc'',
        ''taker_sell_base_vol'', ''taker_sell_quote_vol'', ''fundingRate'']
   \<and> ''mark_open'' \<notin> set (columns saved3)"
  using pipeline_klines3 by (simp add: saved3_def kline_cols_def)

section \<open>What stops a run\<close>























end
